theory Spec2Isabelle
  imports Complex_Main "HOL-Library.Word"
begin

section \<open>Data model of \<^verbatim>\<open>app/main.py\<close>\<close>

text \<open>
  The module keeps its orders in one module-level Python list and serves them through
  FastAPI handlers. Identifiers are UUIDs (128 bits), timestamps are naive
  \<^verbatim>\<open>datetime\<close> values (held here as a count of microseconds), uploaded
  files are byte strings. A Python \<^verbatim>\<open>str\<close> is held as its UTF-8 encoding.
  A \<^verbatim>\<open>float\<close> is an IEEE-754 double, with its rounding, infinities and NaN.
\<close>

type_synonym uuid = "128 word"
type_synonym datetime = int
type_synonym bytes = "8 word list"

subsection \<open>Python numbers\<close>

text \<open>
  A Python \<^verbatim>\<open>float\<close> is an IEEE-754 binary64 value. Every finite double is a whole
  multiple of \<^verbatim>\<open>2**-1074\<close>, the smallest subnormal; \<open>Finite s n\<close> is the double of
  magnitude \<^verbatim>\<open>n * 2**-1074\<close> with sign bit \<open>s\<close> (so \<open>Finite True 0\<close> is \<open>-0.0\<close>). \<open>Inf s\<close>
  are the two infinities, \<open>NaN\<close> stands for every NaN.
\<close>

datatype double = Finite bool nat | Inf bool | NaN

text \<open>\<^verbatim>\<open>int.bit_length\<close>: the number of binary digits of \<open>n\<close>.\<close>

fun bit_length :: "nat \<Rightarrow> nat" where
  "bit_length n = (if n = 0 then 0 else Suc (bit_length (n div 2)))"

declare bit_length.simps [simp del]

text \<open>
  The magnitudes of the finite doubles: at most 53 significant binary digits, and below
  \<^verbatim>\<open>2**1024\<close> (which is \<^verbatim>\<open>2**2098\<close> units).
\<close>

definition representable :: "nat \<Rightarrow> bool" where
  "representable n \<longleftrightarrow> n < 2 ^ 2098 \<and> 2 ^ (bit_length n - 53) dvd n"

text \<open>
  Rounding an exact magnitude of \<open>n\<close> units to a double, to nearest with ties to even
  (the mode Python runs in): the digits beyond the 53rd are cut off, the rest is rounded
  up when the cut-off part is more than half a unit in the last place, or exactly half
  and the kept part is odd. A result of \<^verbatim>\<open>2**1024\<close> or more overflows to infinity.
\<close>

definition round_double :: "bool \<Rightarrow> nat \<Rightarrow> double" where
  "round_double s n =
     (let shift = bit_length n - 53;
          q = n div 2 ^ shift;
          r = n mod 2 ^ shift;
          q' = (if 2 * r > 2 ^ shift \<or> (2 * r = 2 ^ shift \<and> odd q) then q + 1 else q);
          m = q' * 2 ^ shift
      in if m \<ge> 2 ^ 2098 then Inf s else Finite s m)"

definition signed :: "bool \<Rightarrow> nat \<Rightarrow> int" where
  "signed s n = (if s then - int n else int n)"

text \<open>
  Addition of doubles (Python's \<^verbatim>\<open>+\<close> on floats): NaN is contagious, opposite
  infinities give NaN, and two finite values give their exact sum, rounded. An exact sum
  of zero is \<open>+0.0\<close> unless both operands are \<open>-0.0\<close>.
\<close>

fun fadd :: "double \<Rightarrow> double \<Rightarrow> double" where
  "fadd NaN y = NaN"
| "fadd x NaN = NaN"
| "fadd (Inf s) (Inf t) = (if s = t then Inf s else NaN)"
| "fadd (Inf s) (Finite t b) = Inf s"
| "fadd (Finite s a) (Inf t) = Inf t"
| "fadd (Finite s a) (Finite t b) =
     (let k = signed s a + signed t b
      in if k = 0 then Finite (s \<and> t) 0 else round_double (k < 0) (nat \<bar>k\<bar>))"

text \<open>
  The double with the whole value \<open>n\<close>, as the literal \<^verbatim>\<open>100.0\<close> is for \<open>n = 100\<close>
  (a double for every \<open>n\<close> below \<^verbatim>\<open>2**53\<close>).
\<close>

definition py_float :: "nat \<Rightarrow> double" where
  "py_float n = Finite False (n * 2 ^ 1074)"

text \<open>
  The value of a double: in units of \<^verbatim>\<open>2**-1074\<close> as an integer, and as a real number.
  Infinities and NaN have none.
\<close>

fun units :: "double \<Rightarrow> int option" where
  "units (Finite s n) = Some (signed s n)"
| "units (Inf s) = None"
| "units NaN = None"

definition float_value :: "double \<Rightarrow> real option" where
  "float_value d = map_option (\<lambda>k. real_of_int k / 2 ^ 1074) (units d)"

text \<open>What \<^verbatim>\<open>sum\<close> can return here: an \<^verbatim>\<open>int\<close> or a \<^verbatim>\<open>float\<close>.\<close>

datatype py_num = PyInt int | PyFloat double

fun num_units :: "py_num \<Rightarrow> int option" where
  "num_units (PyInt i) = Some (i * 2 ^ 1074)"
| "num_units (PyFloat d) = units d"

fun num_value :: "py_num \<Rightarrow> real option" where
  "num_value (PyInt i) = Some (real_of_int i)"
| "num_value (PyFloat d) = float_value d"

subsection \<open>The pydantic models\<close>

text \<open>
  \<^verbatim>\<open>class Product(BaseModel)\<close> with fields \<^verbatim>\<open>id, name, price\<close>; the subclass
  \<^verbatim>\<open>InferenceImageProduct\<close> adds \<^verbatim>\<open>result: Optional[List]\<close>, which a plain
  product does not have (\<open>None\<close> here).
\<close>

record Product =
  p_id :: uuid
  name :: string
  price :: double
  result :: "string list option"

text \<open>\<^verbatim>\<open>class Order(BaseModel)\<close> with fields \<^verbatim>\<open>id, products, created_at, updated_at\<close>.\<close>

record Order =
  o_id :: uuid
  products :: "Product list"
  created_at :: datetime
  updated_at :: datetime

text \<open>\<^verbatim>\<open>class OrderUpdate(BaseModel)\<close>: the body of a PATCH request.\<close>

record OrderUpdate =
  new_products :: "Product list"

subsection \<open>Constructors\<close>

text \<open>
  \<^verbatim>\<open>Order(products=ps)\<close>: the three other fields come from their default factories,
  \<^verbatim>\<open>uuid4()\<close> once and \<^verbatim>\<open>datetime.now()\<close> twice. The values those calls
  return are arguments of the model. The constructor checks nothing about \<open>ps\<close>.
\<close>

definition Order_init :: "uuid \<Rightarrow> datetime \<Rightarrow> datetime \<Rightarrow> Product list \<Rightarrow> Order" where
  "Order_init fresh_id now1 now2 ps =
     \<lparr>o_id = fresh_id, products = ps, created_at = now1, updated_at = now2\<rparr>"

text \<open>
  \<^verbatim>\<open>InferenceImageProduct(result=r)\<close>: the id comes from \<^verbatim>\<open>uuid4()\<close>, name and
  price are the class defaults.
\<close>

definition InferenceImageProduct :: "uuid \<Rightarrow> string list \<Rightarrow> Product" where
  "InferenceImageProduct fresh_id r =
     \<lparr>p_id = fresh_id, name = ''inference_image_product'', price = py_float 100, result = Some r\<rparr>"

subsection \<open>Methods of \<^verbatim>\<open>Order\<close>\<close>

text \<open>
  Python's \<^verbatim>\<open>sum(xs)\<close> on a list of floats: it starts from the \<^verbatim>\<open>int\<close> \<open>0\<close>, which an
  empty list returns as it is; the first float turns the running total into the float
  \<open>0.0\<close>, and the elements are added to it from left to right, each addition rounded
  (CPython before 3.12; later versions carry a compensation term along).
\<close>

fun py_sum :: "double list \<Rightarrow> py_num" where
  "py_sum [] = PyInt 0"
| "py_sum (x # xs) = PyFloat (foldl fadd (py_float 0) (x # xs))"

text \<open>\<^verbatim>\<open>Order.bill\<close>: a property, computed from \<^verbatim>\<open>self.products\<close> at every read.\<close>

definition bill :: "Order \<Rightarrow> py_num" where
  "bill self = py_sum (map price (products self))"

text \<open>
  \<^verbatim>\<open>Order.add_product\<close>. The argument \<open>now\<close> is what \<^verbatim>\<open>datetime.now()\<close> returns
  during the call; the method reads it on the appending path only.
\<close>

definition add_product :: "datetime \<Rightarrow> Order \<Rightarrow> Product \<Rightarrow> Order" where
  "add_product now self product =
     (if p_id product \<in> set (map p_id (products self)) then self
      else self\<lparr>products := products self @ [product], updated_at := now\<rparr>)"

text \<open>
  \<^verbatim>\<open>Order.copy()\<close> (pydantic): a new object with the same field values. Objects
  that are not in the store are held by value, so the copy is the value itself.
\<close>

definition Order_copy :: "Order \<Rightarrow> Order" where
  "Order_copy self = self"

section \<open>The order store\<close>

text \<open>
  The module-level list \<^verbatim>\<open>orders\<close> is passed to every operation and returned by
  those that change it. An order object that lives in the list is referred to by its
  position; mutating the object is an update of the list at that position.

  \<^verbatim>\<open>get_order_by_id\<close>:
  \<^verbatim>\<open>next((order for order in orders if order.id == order_id), None)\<close>, the first
  element the generator yields, or \<^verbatim>\<open>None\<close>.
\<close>

fun get_order_by_id :: "Order list \<Rightarrow> uuid \<Rightarrow> Order option" where
  "get_order_by_id [] order_id = None"
| "get_order_by_id (order # rest) order_id =
     (if o_id order = order_id then Some order else get_order_by_id rest order_id)"

text \<open>The position of the object that \<^verbatim>\<open>get_order_by_id\<close> returns a reference to.\<close>

fun get_order_ref :: "Order list \<Rightarrow> uuid \<Rightarrow> nat option" where
  "get_order_ref [] order_id = None"
| "get_order_ref (order # rest) order_id =
     (if o_id order = order_id then Some 0
      else map_option Suc (get_order_ref rest order_id))"

text \<open>
  The loop of \<^verbatim>\<open>update_order_by_id\<close>:
  \<^verbatim>\<open>for next_product in order_update.products:
      updated_order = existing_order.add_product(next_product)\<close>
  where \<^verbatim>\<open>existing_order\<close> is the stored object at position \<open>i\<close>. The method
  mutates that object and returns it, and the result overwrites \<^verbatim>\<open>updated_order\<close>.
  \<open>now k\<close> is what \<^verbatim>\<open>datetime.now()\<close> returns while the \<open>k\<close>-th product of the
  request is processed.
\<close>

fun update_loop ::
  "(nat \<Rightarrow> datetime) \<Rightarrow> nat \<Rightarrow> nat \<Rightarrow> Product list \<Rightarrow> Order \<Rightarrow> Order list \<Rightarrow> Order \<times> Order list"
where
  "update_loop now k i [] updated_order orders = (updated_order, orders)"
| "update_loop now k i (next_product # rest) updated_order orders =
     (let existing_order = add_product (now k) (orders ! i) next_product
      in update_loop now (Suc k) i rest existing_order (orders[i := existing_order]))"

text \<open>
  \<^verbatim>\<open>update_order_by_id\<close>: \<^verbatim>\<open>None\<close> when the lookup finds nothing; otherwise
  \<^verbatim>\<open>updated_order\<close> starts as a copy of the stored order and the loop runs.
\<close>

definition update_order_by_id ::
  "(nat \<Rightarrow> datetime) \<Rightarrow> uuid \<Rightarrow> OrderUpdate \<Rightarrow> Order list \<Rightarrow> Order option \<times> Order list"
where
  "update_order_by_id now order_id order_update orders =
     (case get_order_ref orders order_id of
        None \<Rightarrow> (None, orders)
      | Some i \<Rightarrow>
          (let (updated_order, orders') =
                 update_loop now 0 i (new_products order_update) (Order_copy (orders ! i)) orders
           in (Some updated_order, orders')))"

section \<open>The handlers\<close>

text \<open>
  What a handler returns: an order, a list of orders, a number, or a dict literal with
  string keys and values (kept as the list of its items).
\<close>

datatype body =
  OrderBody Order
| OrdersBody "Order list"
| NumberBody py_num
| DictBody "(string \<times> string) list"

text \<open>
  The text of the message the handlers return for an unknown order, as the UTF-8 bytes
  of the source's string literal (sixteen Hangul and space characters, forty bytes).
\<close>

definition order_not_found_text :: string where
  "order_not_found_text =
     [CHR 0xEC, CHR 0xA3, CHR 0xBC, CHR 0xEB, CHR 0xAC, CHR 0xB8, CHR 0x20,
      CHR 0xEC, CHR 0xA0, CHR 0x95, CHR 0xEB, CHR 0xB3, CHR 0xB4, CHR 0xEB, CHR 0xA5, CHR 0xBC, CHR 0x20,
      CHR 0xEC, CHR 0xB0, CHR 0xBE, CHR 0xEC, CHR 0x9D, CHR 0x84, CHR 0x20,
      CHR 0xEC, CHR 0x88, CHR 0x98, CHR 0x20,
      CHR 0xEC, CHR 0x97, CHR 0x86, CHR 0xEC, CHR 0x8A, CHR 0xB5, CHR 0xEB, CHR 0x8B, CHR 0x88,
      CHR 0xEB, CHR 0x8B, CHR 0xA4]"

text \<open>\<^verbatim>\<open>GET /\<close>\<close>

definition hello_world :: body where
  "hello_world = DictBody [(''hello'', ''world'')]"

text \<open>\<^verbatim>\<open>GET /order\<close>\<close>

definition get_orders :: "Order list \<Rightarrow> body" where
  "get_orders orders = OrdersBody orders"

text \<open>\<^verbatim>\<open>GET /order/{order_id}\<close>\<close>

definition get_order :: "uuid \<Rightarrow> Order list \<Rightarrow> body" where
  "get_order order_id orders =
     (case get_order_by_id orders order_id of
        None \<Rightarrow> DictBody [(''message'', order_not_found_text)]
      | Some order \<Rightarrow> OrderBody order)"

text \<open>\<^verbatim>\<open>PATCH /order/{order_id}\<close>\<close>

definition update_order ::
  "(nat \<Rightarrow> datetime) \<Rightarrow> uuid \<Rightarrow> OrderUpdate \<Rightarrow> Order list \<Rightarrow> body \<times> Order list"
where
  "update_order now order_id order_update orders =
     (case update_order_by_id now order_id order_update orders of
        (None, orders') \<Rightarrow> (DictBody [(''message'', order_not_found_text)], orders')
      | (Some updated_order, orders') \<Rightarrow> (OrderBody updated_order, orders'))"

text \<open>\<^verbatim>\<open>GET /bill/{order_id}\<close>\<close>

definition get_bill :: "uuid \<Rightarrow> Order list \<Rightarrow> body" where
  "get_bill order_id orders =
     (case get_order_by_id orders order_id of
        None \<Rightarrow> DictBody [(''message'', order_not_found_text)]
      | Some found_order \<Rightarrow> NumberBody (bill found_order))"

text \<open>
  The loop of \<^verbatim>\<open>make_order\<close> over the uploaded files. \<open>predict\<close> stands for
  \<^verbatim>\<open>predict_from_image_byte\<close> of \<^verbatim>\<open>app.model\<close>, which either returns the
  inference result or raises (\<open>Inl\<close>); the handler has no \<^verbatim>\<open>try\<close>, so an
  exception leaves the loop and the handler at once. \<open>uuid4 k\<close> is what the \<open>k\<close>-th call
  of \<^verbatim>\<open>uuid4()\<close> in the request returns; one call is made per product built, so the
  next index is the number of products so far (\<open>prods\<close>, the list \<^verbatim>\<open>products\<close> of the source). \<open>calls\<close> records the byte strings handed
  to \<open>predict\<close>, in order.
\<close>

fun make_products ::
  "('m \<Rightarrow> bytes \<Rightarrow> 'c \<Rightarrow> 'e + string list) \<Rightarrow> 'm \<Rightarrow> 'c \<Rightarrow> (nat \<Rightarrow> uuid) \<Rightarrow>
   bytes list \<Rightarrow> Product list \<Rightarrow> bytes list \<Rightarrow> ('e + Product list) \<times> bytes list"
where
  "make_products predict model config uuid4 [] prods calls = (Inr prods, calls)"
| "make_products predict model config uuid4 (image_bytes # files) prods calls =
     (case predict model image_bytes config of
        Inl e \<Rightarrow> (Inl e, calls @ [image_bytes])
      | Inr inference_result \<Rightarrow>
          (let product = InferenceImageProduct (uuid4 (length prods)) inference_result
           in make_products predict model config uuid4 files (prods @ [product])
                (calls @ [image_bytes])))"

text \<open>
  \<^verbatim>\<open>POST /order\<close>. After the loop the order is built (one more \<^verbatim>\<open>uuid4()\<close>, two
  readings of the clock) and appended to the store. The result is the returned order or
  the exception, the store, and the record of the calls of \<open>predict\<close>.
\<close>

definition make_order ::
  "('m \<Rightarrow> bytes \<Rightarrow> 'c \<Rightarrow> 'e + string list) \<Rightarrow> 'm \<Rightarrow> 'c \<Rightarrow> (nat \<Rightarrow> uuid) \<Rightarrow> (nat \<Rightarrow> datetime) \<Rightarrow>
   bytes list \<Rightarrow> Order list \<Rightarrow> ('e + Order) \<times> Order list \<times> bytes list"
where
  "make_order predict model config uuid4 now files orders =
     (case make_products predict model config uuid4 files [] [] of
        (Inl e, calls) \<Rightarrow> (Inl e, orders, calls)
      | (Inr prods, calls) \<Rightarrow>
          (let new_order = Order_init (uuid4 (length prods)) (now 0) (now 1) prods
           in (Inr new_order, orders @ [new_order], calls)))"

text \<open>
  FastAPI sends what a handler returns with status 200 (no route of the module sets
  another \<^verbatim>\<open>status_code\<close>), and answers an exception that leaves a handler with 500.
\<close>

definition http_status :: "'e + body \<Rightarrow> nat" where
  "http_status outcome = (case outcome of Inl e \<Rightarrow> 500 | Inr b \<Rightarrow> 200)"

section \<open>Reference definitions and sample data\<close>

text \<open>
  What "apply \<^verbatim>\<open>add_product\<close> for each supplied product, one after the other, to
  the stored order" means: a left fold over the supplied products, each paired with its
  position in the request (the clock is read at \<open>now k\<close> for the \<open>k\<close>-th product).
\<close>

definition add_products_in_turn :: "(nat \<Rightarrow> datetime) \<Rightarrow> Order \<Rightarrow> Product list \<Rightarrow> Order" where
  "add_products_in_turn now stored ps =
     foldl (\<lambda>self (k, product). add_product (now k) self product) stored (enumerate 0 ps)"

text \<open>
  "The sum of the prices" in exact arithmetic, in units of \<^verbatim>\<open>2**-1074\<close> and as a real
  number; there is none when a price is infinite or NaN.
\<close>

fun exact_sum :: "double list \<Rightarrow> int option" where
  "exact_sum [] = Some 0"
| "exact_sum (x # xs) =
     (case (units x, exact_sum xs) of (Some k, Some t) \<Rightarrow> Some (k + t) | _ \<Rightarrow> None)"

definition exact_value :: "double list \<Rightarrow> real option" where
  "exact_value xs = map_option (\<lambda>k. real_of_int k / 2 ^ 1074) (exact_sum xs)"

text \<open>
  Every price is finite and every running total, starting from \<open>acc\<close> units, is itself a
  double: no addition of the summation rounds.
\<close>

fun exact_partial_sums :: "int \<Rightarrow> double list \<Rightarrow> bool" where
  "exact_partial_sums acc [] = True"
| "exact_partial_sums acc (x # xs) =
     (case units x of
        None \<Rightarrow> False
      | Some k \<Rightarrow> representable (nat \<bar>acc + k\<bar>) \<and> exact_partial_sums (acc + k) xs)"

text \<open>
  The products \<^verbatim>\<open>make_order\<close> builds from files that all classify: the \<open>n\<close>-th
  file (counting from \<open>k\<close>) becomes an \<^verbatim>\<open>InferenceImageProduct\<close> with the \<open>n\<close>-th
  generated id and the result of its classification.
\<close>

definition built_products ::
  "('m \<Rightarrow> bytes \<Rightarrow> 'c \<Rightarrow> 'e + string list) \<Rightarrow> 'm \<Rightarrow> 'c \<Rightarrow> (nat \<Rightarrow> uuid) \<Rightarrow> nat \<Rightarrow> bytes list \<Rightarrow> Product list" where
  "built_products predict model config uuid4 k files =
     map (\<lambda>(n, image_bytes). InferenceImageProduct (uuid4 n) (projr (predict model image_bytes config)))
       (enumerate k files)"

text \<open>
  Sample data for the examples below: two products priced 10.0 and 20.0, an order holding
  the first; two products priced 0.1 and 0.2 (the doubles nearest to them,
  \<^verbatim>\<open>3602879701896397 * 2**-55\<close> and \<^verbatim>\<open>3602879701896397 * 2**-54\<close>) and an order holding both; a
  classifier that rejects an empty upload, an id generator and a clock.
\<close>

definition tea :: Product where
  "tea = \<lparr>p_id = 1, name = ''tea'', price = py_float 10, result = None\<rparr>"

definition cake :: Product where
  "cake = \<lparr>p_id = 2, name = ''cake'', price = py_float 20, result = None\<rparr>"

definition tea_order :: Order where
  "tea_order = \<lparr>o_id = 7, products = [tea], created_at = 1000, updated_at = 1000\<rparr>"

definition mint :: Product where
  "mint = \<lparr>p_id = 3, name = ''mint'', price = Finite False (3602879701896397 * 2 ^ 1019),
            result = None\<rparr>"

definition gum :: Product where
  "gum = \<lparr>p_id = 4, name = ''gum'', price = Finite False (3602879701896397 * 2 ^ 1020),
           result = None\<rparr>"

definition sweets_order :: Order where
  "sweets_order = \<lparr>o_id = 9, products = [mint, gum], created_at = 1000, updated_at = 1000\<rparr>"

definition sample_predict :: "unit \<Rightarrow> bytes \<Rightarrow> unit \<Rightarrow> string + string list" where
  "sample_predict model image_bytes config =
     (if image_bytes = [] then Inl ''cannot identify image file'' else Inr [''cat''])"

definition sample_uuid4 :: "nat \<Rightarrow> uuid" where
  "sample_uuid4 k = 100 + of_nat k"

definition sample_now :: "nat \<Rightarrow> datetime" where
  "sample_now k = 2000 + int k"

section \<open>Properties of the doubles\<close>

lemma bit_length_0 [simp]: "bit_length 0 = 0"
  by (simp add: bit_length.simps)

lemma bit_length_pos: "0 < n \<Longrightarrow> bit_length n = Suc (bit_length (n div 2))"
  by (subst bit_length.simps) simp

lemma bit_length_double: "0 < n \<Longrightarrow> bit_length (2 * n) = Suc (bit_length n)"
  by (subst bit_length.simps) simp

lemma bit_length_scaled: "0 < m \<Longrightarrow> bit_length (m * 2 ^ e) = bit_length m + e"
proof (induction e)
  case 0
  then show ?case by simp
next
  case (Suc e)
  from Suc.prems have "bit_length (2 * (m * 2 ^ e)) = Suc (bit_length (m * 2 ^ e))"
    by (intro bit_length_double) simp
  with Suc show ?case by (simp add: mult.left_commute)
qed

lemma bit_length_less: "n < 2 ^ k \<Longrightarrow> bit_length n \<le> k"
proof (induction k arbitrary: n)
  case 0
  then show ?case by simp
next
  case (Suc k)
  show ?case
  proof (cases "n = 0")
    case True
    then show ?thesis by simp
  next
    case False
    from Suc.prems have "n div 2 < 2 ^ k" by simp
    from Suc.IH [OF this] False show ?thesis by (simp add: bit_length_pos)
  qed
qed

text \<open>A magnitude that is a double is not changed by rounding.\<close>

lemma round_double_exact: "representable n \<Longrightarrow> round_double s n = Finite s n"
  by (auto simp: representable_def round_double_def Let_def)

lemma round_double_0: "round_double s 0 = Finite s 0"
  by (simp add: round_double_def)

lemma representable_scaled:
  assumes "m < 2 ^ 53" and "e \<le> 2045"
  shows "representable (m * 2 ^ e)"
proof (cases "m = 0")
  case True
  then show ?thesis by (simp add: representable_def)
next
  case False
  then have len: "bit_length (m * 2 ^ e) = bit_length m + e"
    by (simp add: bit_length_scaled)
  from assms(1) have "bit_length m \<le> 53" by (rule bit_length_less)
  then have "bit_length m + e - 53 \<le> e" by simp
  then have "(2::nat) ^ (bit_length m + e - 53) dvd 2 ^ e" by (rule le_imp_power_dvd)
  then have dvd: "2 ^ (bit_length (m * 2 ^ e) - 53) dvd m * 2 ^ e"
    unfolding len by (rule dvd_mult)
  from assms(1) have "m * 2 ^ e < 2 ^ 53 * 2 ^ e" by simp
  also have "\<dots> = 2 ^ (53 + e)" by (simp add: power_add)
  also from assms(2) have "\<dots> \<le> (2::nat) ^ 2098" by (intro power_increasing) simp_all
  finally show ?thesis using dvd by (simp add: representable_def)
qed

text \<open>
  Rounding \<^verbatim>\<open>m * 2**e\<close> rounds \<open>m\<close>: the position of the 53rd digit moves with the scaling.
\<close>

lemma round_double_scaled:
  assumes "0 < m"
  shows "round_double s (m * 2 ^ e) =
     (let sh = bit_length m - 53;
          q = m div 2 ^ sh;
          r = m mod 2 ^ sh;
          q' = (if 2 * r > 2 ^ sh \<or> (2 * r = 2 ^ sh \<and> odd q) then q + 1 else q)
      in if q' * 2 ^ (sh + e) \<ge> 2 ^ 2098 then Inf s else Finite s (q' * 2 ^ (sh + e)))"
proof (cases "bit_length m \<le> 53")
  case True
  then have "bit_length m + e - 53 \<le> e" by simp
  then have "(2::nat) ^ (bit_length m + e - 53) dvd 2 ^ e" by (rule le_imp_power_dvd)
  then have "2 ^ (bit_length m + e - 53) dvd m * 2 ^ e" by (rule dvd_mult)
  with assms True show ?thesis
    by (auto simp: round_double_def Let_def bit_length_scaled)
next
  case False
  define sh where "sh = bit_length m - 53"
  from False have shift: "bit_length m + e - 53 = sh + e" by (simp add: sh_def)
  have d: "m * 2 ^ e div 2 ^ (sh + e) = m div 2 ^ sh"
    by (simp add: power_add)
  have r: "m * 2 ^ e mod 2 ^ (sh + e) = (m mod 2 ^ sh) * 2 ^ e"
    by (simp add: power_add mult_mod_left)
  have gt: "2 * ((m mod 2 ^ sh) * 2 ^ e) > 2 ^ (sh + e) \<longleftrightarrow> 2 * (m mod 2 ^ sh) > 2 ^ sh"
    by (simp add: power_add)
  have eq: "2 * ((m mod 2 ^ sh) * 2 ^ e) = 2 ^ (sh + e) \<longleftrightarrow> 2 * (m mod 2 ^ sh) = 2 ^ sh"
    by (simp add: power_add)
  show ?thesis
    using assms
    by (simp add: round_double_def Let_def bit_length_scaled shift d r gt eq flip: sh_def)
qed

lemma fadd_positive:
  "fadd (Finite False a) (Finite False b) = round_double False (a + b)"
proof (cases "a + b = 0")
  case True
  then show ?thesis by (simp add: signed_def round_double_0)
next
  case False
  then have "int a + int b \<noteq> 0" by linarith
  moreover have "nat \<bar>int a + int b\<bar> = a + b" by linarith
  ultimately show ?thesis by (simp add: signed_def Let_def)
qed

text \<open>An addition whose exact result is a double returns that double.\<close>

lemma fadd_exact:
  assumes "units x = Some a" and "units y = Some k" and "representable (nat \<bar>a + k\<bar>)"
  shows "units (fadd x y) = Some (a + k)"
proof -
  from assms(1) obtain s n where x: "x = Finite s n" "a = signed s n"
    by (cases x) auto
  from assms(2) obtain t m where y: "y = Finite t m" "k = signed t m"
    by (cases y) auto
  show ?thesis
  proof (cases "a + k = 0")
    case True
    with x y show ?thesis by (simp add: signed_def)
  next
    case False
    with x y assms(3) show ?thesis
      by (simp add: round_double_exact) (simp add: signed_def)
  qed
qed

lemma exact_partial_sums_finite: "exact_partial_sums a xs \<Longrightarrow> \<exists>t. exact_sum xs = Some t"
  by (induction xs arbitrary: a) (auto split: option.splits)

lemma foldl_fadd_exact:
  "units acc = Some a \<Longrightarrow> exact_partial_sums a xs \<Longrightarrow>
   units (foldl fadd acc xs) = map_option (\<lambda>t. a + t) (exact_sum xs)"
proof (induction xs arbitrary: acc a)
  case Nil
  then show ?case by simp
next
  case (Cons x xs)
  from Cons.prems(2) obtain k where k: "units x = Some k" "representable (nat \<bar>a + k\<bar>)"
      "exact_partial_sums (a + k) xs"
    by (auto split: option.splits)
  from fadd_exact [OF Cons.prems(1) k(1,2)] have step: "units (fadd acc x) = Some (a + k)" .
  from exact_partial_sums_finite [OF k(3)] obtain t where t: "exact_sum xs = Some t" ..
  from Cons.IH [OF step k(3)] k(1) t show ?case by simp
qed

lemma units_py_float: "units (py_float n) = Some (int (n * 2 ^ 1074))"
  by (simp add: py_float_def signed_def)

lemma float_value_py_float: "float_value (py_float n) = Some (real n)"
  by (simp add: float_value_def units_py_float)

lemma py_sum_exact:
  assumes "exact_partial_sums 0 xs"
  shows "num_units (py_sum xs) = exact_sum xs"
proof (cases xs)
  case Nil
  then show ?thesis by simp
next
  case (Cons y ys)
  have "units (py_float 0) = Some 0" by (simp add: units_py_float)
  from foldl_fadd_exact [OF this assms] exact_partial_sums_finite [OF assms] Cons
  show ?thesis by auto
qed

lemma num_value_units: "num_value n = map_option (\<lambda>k. real_of_int k / 2 ^ 1074) (num_units n)"
  by (cases n) (simp_all add: float_value_def)

lemma scaled_value_eq:
  "map_option (\<lambda>k. real_of_int k / 2 ^ 1074) a = map_option (\<lambda>k. real_of_int k / 2 ^ 1074) b
   \<longleftrightarrow> a = b"
  by (cases a; cases b) simp_all

text \<open>Whole values add exactly as long as the sum stays below \<^verbatim>\<open>2**53\<close>.\<close>

lemma fadd_py_float:
  assumes "x + y < 2 ^ 53"
  shows "fadd (py_float x) (py_float y) = py_float (x + y)"
proof -
  have "fadd (py_float x) (py_float y) = round_double False (x * 2 ^ 1074 + y * 2 ^ 1074)"
    unfolding py_float_def by (rule fadd_positive)
  also have "x * 2 ^ 1074 + y * 2 ^ 1074 = (x + y) * 2 ^ 1074"
    by (simp only: distrib_right)
  also from assms have "round_double False ((x + y) * 2 ^ 1074) = Finite False ((x + y) * 2 ^ 1074)"
    by (intro round_double_exact representable_scaled) simp_all
  finally show ?thesis by (simp only: py_float_def)
qed

lemma foldl_fadd_fixed_price:
  "\<forall>x\<in>set xs. x = py_float c \<Longrightarrow> c * (a + length xs) < 2 ^ 53 \<Longrightarrow>
   foldl fadd (py_float (c * a)) xs = py_float (c * (a + length xs))"
proof (induction xs arbitrary: a)
  case Nil
  then show ?case by simp
next
  case (Cons x xs)
  from Cons.prems have x: "x = py_float c" and rest: "\<forall>x\<in>set xs. x = py_float c"
    and bound: "c * (Suc a + length xs) < 2 ^ 53"
    by simp_all
  have "c * a + c \<le> c * (Suc a + length xs)"
    by (simp add: algebra_simps)
  with bound have "c * a + c < 2 ^ 53" by linarith
  then have "fadd (py_float (c * a)) (py_float c) = py_float (c * a + c)"
    by (rule fadd_py_float)
  also have "c * a + c = c * Suc a" by simp
  finally have step: "fadd (py_float (c * a)) x = py_float (c * Suc a)"
    by (simp only: x)
  from Cons.IH [OF rest bound] step show ?case by simp
qed

lemma exact_partial_sums_py_float:
  "a + sum_list ns < 2 ^ 53 \<Longrightarrow> exact_partial_sums (int (a * 2 ^ 1074)) (map py_float ns)"
proof (induction ns arbitrary: a)
  case Nil
  then show ?case by simp
next
  case (Cons n ns)
  have sum: "int (a * 2 ^ 1074) + int (n * 2 ^ 1074) = int ((a + n) * 2 ^ 1074)"
    by (simp only: distrib_right of_nat_add)
  from Cons.prems have "a + n < 2 ^ 53" by simp
  then have rep: "representable ((a + n) * 2 ^ 1074)"
    by (rule representable_scaled) simp
  from Cons.prems have "(a + n) + sum_list ns < 2 ^ 53" by simp
  from Cons.IH [OF this] rep show ?case
    by (simp only: list.map exact_partial_sums.simps units_py_float option.case sum nat_int
        abs_of_nat simp_thms)
qed

text \<open>The largest double added to itself overflows.\<close>

lemma fadd_overflows:
  "fadd (Finite False (9007199254740991 * 2 ^ 2045)) (Finite False (9007199254740991 * 2 ^ 2045))
     = Inf False"
proof -
  have sum: "9007199254740991 * 2 ^ 2045 + 9007199254740991 * 2 ^ 2045
      = (9007199254740991::nat) * 2 ^ 2046"
    by simp
  have len: "bit_length 9007199254740991 = 53"
    by (simp add: bit_length.simps)
  have "fadd (Finite False (9007199254740991 * 2 ^ 2045)) (Finite False (9007199254740991 * 2 ^ 2045))
      = round_double False (9007199254740991 * 2 ^ 2045 + 9007199254740991 * 2 ^ 2045)"
    by (rule fadd_positive)
  also have "\<dots> = round_double False (9007199254740991 * 2 ^ 2046)"
    by (simp only: sum)
  also have "\<dots> = Inf False"
    by (subst round_double_scaled) (simp_all add: len Let_def)
  finally show ?thesis .
qed

section \<open>Properties of \<^verbatim>\<open>Order\<close>\<close>

lemma add_product_o_id: "o_id (add_product now self product) = o_id self"
  by (simp add: add_product_def)

lemma add_product_present:
  "p_id product \<in> set (map p_id (products self)) \<Longrightarrow> add_product now self product = self"
  by (simp add: add_product_def)

lemma add_product_absent:
  "p_id product \<notin> set (map p_id (products self)) \<Longrightarrow>
   add_product now self product = self\<lparr>products := products self @ [product], updated_at := now\<rparr>"
  by (simp add: add_product_def)

lemma add_product_then_present:
  "p_id product \<in> set (map p_id (products (add_product now self product)))"
  by (simp add: add_product_def)

section \<open>Properties of the store\<close>

lemma get_order_by_id_ref:
  "get_order_by_id orders order_id = map_option ((!) orders) (get_order_ref orders order_id)"
  by (induction orders) (simp_all add: option.map_comp comp_def)

lemma get_order_ref_Some:
  "get_order_ref orders order_id = Some i \<Longrightarrow>
   i < length orders \<and> o_id (orders ! i) = order_id \<and> (\<forall>j<i. o_id (orders ! j) \<noteq> order_id)"
proof (induction orders arbitrary: i)
  case Nil
  then show ?case by simp
next
  case (Cons order rest)
  show ?case
  proof (cases "o_id order = order_id")
    case True
    with Cons.prems show ?thesis by simp
  next
    case False
    with Cons.prems obtain i' where i': "get_order_ref rest order_id = Some i'" "i = Suc i'"
      by auto
    from Cons.IH [OF i'(1)] False i'(2) show ?thesis
      by (auto simp: less_Suc_eq_0_disj)
  qed
qed

lemma get_order_ref_None:
  "get_order_ref orders order_id = None \<longleftrightarrow> order_id \<notin> set (map o_id orders)"
  by (induction orders) auto

lemma get_order_by_id_None:
  "get_order_by_id orders order_id = None \<longleftrightarrow> order_id \<notin> set (map o_id orders)"
  by (induction orders) auto

lemma get_order_by_id_find:
  "get_order_by_id orders order_id = List.find (\<lambda>order. o_id order = order_id) orders"
  by (induction orders) simp_all

lemma update_loop_Cons:
  "i < length orders \<Longrightarrow>
   update_loop now k i (p # ps) updated_order orders =
     (let final = foldl (\<lambda>self (n, product). add_product (now n) self product) (orders ! i)
                    (enumerate k (p # ps))
      in (final, orders[i := final]))"
proof (induction ps arbitrary: k p updated_order orders)
  case Nil
  then show ?case by (simp add: Let_def)
next
  case (Cons q qs)
  have "update_loop now k i (p # q # qs) updated_order orders =
        update_loop now (Suc k) i (q # qs) (add_product (now k) (orders ! i) p)
          (orders[i := add_product (now k) (orders ! i) p])"
    by (simp add: Let_def)
  also have "\<dots> = (let final = foldl (\<lambda>self (n, product). add_product (now n) self product)
                       (add_product (now k) (orders ! i) p) (enumerate (Suc k) (q # qs))
                  in (final, orders[i := final]))"
    using Cons.prems by (subst Cons.IH) (simp_all add: Let_def)
  finally show ?case by (simp add: Let_def)
qed

lemma update_loop_eq:
  "i < length orders \<Longrightarrow>
   update_loop now k i ps (orders ! i) orders =
     (let final = foldl (\<lambda>self (n, product). add_product (now n) self product) (orders ! i)
                    (enumerate k ps)
      in (final, orders[i := final]))"
  by (cases ps) (simp_all add: update_loop_Cons Let_def del: update_loop.simps(2))

lemma get_order_by_id_Some:
  "get_order_by_id orders order_id = Some found \<Longrightarrow> o_id found = order_id \<and> found \<in> set orders"
  by (induction orders) (auto split: if_splits)

lemma get_order_ref_first:
  "i < length orders \<Longrightarrow> o_id (orders ! i) = order_id \<Longrightarrow> \<forall>j<i. o_id (orders ! j) \<noteq> order_id \<Longrightarrow>
   get_order_ref orders order_id = Some i"
proof (induction orders arbitrary: i)
  case Nil
  then show ?case by simp
next
  case (Cons order rest)
  show ?case
  proof (cases i)
    case 0
    with Cons.prems show ?thesis by simp
  next
    case (Suc i')
    with Cons.prems have "i' < length rest" "o_id (rest ! i') = order_id"
      "\<forall>j<i'. o_id (rest ! j) \<noteq> order_id" and head: "o_id order \<noteq> order_id"
      by auto
    from Cons.IH [OF this(1,2,3)] head Suc show ?thesis by simp
  qed
qed

lemma get_order_by_id_after_append:
  "\<exists>found. get_order_by_id (orders @ [order]) (o_id order) = Some found \<and> o_id found = o_id order"
proof (cases "get_order_by_id (orders @ [order]) (o_id order)")
  case None
  then show ?thesis by (simp add: get_order_by_id_None)
next
  case (Some found)
  with get_order_by_id_Some [OF Some] show ?thesis by simp
qed

lemma foldl_add_product_o_id:
  "o_id (foldl (\<lambda>self (k, product). add_product (now k) self product) self kps) = o_id self"
  by (induction kps arbitrary: self) (simp_all add: add_product_o_id split: prod.splits)

lemma get_order_by_id_update_first:
  "i < length orders \<Longrightarrow> \<forall>j<i. o_id (orders ! j) \<noteq> order_id \<Longrightarrow> o_id v = order_id \<Longrightarrow>
   get_order_by_id (orders[i := v]) order_id = Some v"
proof (induction orders arbitrary: i)
  case Nil
  then show ?case by simp
next
  case (Cons order rest)
  show ?case
  proof (cases i)
    case 0
    with Cons.prems show ?thesis by simp
  next
    case (Suc i')
    with Cons.prems have "i' < length rest" "\<forall>j<i'. o_id (rest ! j) \<noteq> order_id"
      and head: "o_id order \<noteq> order_id"
      by auto
    from Cons.IH [OF this(1,2) Cons.prems(3)] head Suc show ?thesis by simp
  qed
qed

lemma update_order_by_id_at:
  assumes "get_order_ref orders order_id = Some i"
  shows "update_order_by_id now order_id order_update orders =
           (Some (add_products_in_turn now (orders ! i) (new_products order_update)),
            orders[i := add_products_in_turn now (orders ! i) (new_products order_update)])"
proof -
  from get_order_ref_Some [OF assms] have "i < length orders" by simp
  then show ?thesis
    using assms
    by (simp add: update_order_by_id_def Order_copy_def update_loop_eq add_products_in_turn_def
        Let_def)
qed

section \<open>Properties of order creation\<close>

lemma make_products_all_ok:
  "\<forall>f\<in>set files. \<not> isl (predict model f config) \<Longrightarrow>
   make_products predict model config uuid4 files prods calls =
     (Inr (prods @ built_products predict model config uuid4 (length prods) files), calls @ files)"
proof (induction files arbitrary: prods calls)
  case Nil
  then show ?case by (simp add: built_products_def)
next
  case (Cons f files)
  from Cons.prems obtain r where r: "predict model f config = Inr r"
    by (cases "predict model f config") auto
  from Cons.prems have rest: "\<forall>f\<in>set files. \<not> isl (predict model f config)" by simp
  show ?case
    using r by (simp add: Cons.IH [OF rest] built_products_def)
qed

lemma make_products_first_failure:
  "\<forall>f\<in>set pre. \<not> isl (predict model f config) \<Longrightarrow> predict model bad config = Inl e \<Longrightarrow>
   make_products predict model config uuid4 (pre @ bad # post) prods calls =
     (Inl e, calls @ pre @ [bad])"
proof (induction pre arbitrary: prods calls)
  case Nil
  then show ?case by simp
next
  case (Cons f pre)
  from Cons.prems obtain r where r: "predict model f config = Inr r"
    by (cases "predict model f config") auto
  from Cons.prems have rest: "\<forall>f\<in>set pre. \<not> isl (predict model f config)" by simp
  show ?case
    using r by (simp add: Cons.IH [OF rest Cons.prems(2)])
qed

lemma built_products_ids:
  "map p_id (built_products predict model config uuid4 k files) = map uuid4 [k..<k + length files]"
proof (induction files arbitrary: k)
  case Nil
  show ?case by (simp add: built_products_def)
next
  case (Cons f files)
  have "[k..<k + length (f # files)] = k # [Suc k..<Suc k + length files]"
    by (subst upt_conv_Cons) simp_all
  with Cons.IH [of "Suc k"] show ?case
    by (simp add: built_products_def InferenceImageProduct_def)
qed

lemma built_products_length:
  "length (built_products predict model config uuid4 k files) = length files"
  by (simp add: built_products_def)

lemma built_products_fixed:
  "p \<in> set (built_products predict model config uuid4 k files) \<Longrightarrow>
   name p = ''inference_image_product'' \<and> price p = py_float 100"
  by (auto simp: built_products_def InferenceImageProduct_def)

lemma files_all_ok_or_first_failure:
  "(\<forall>f\<in>set files. \<not> isl (predict model f config)) \<or>
   (\<exists>pre bad post e. files = pre @ bad # post \<and> (\<forall>f\<in>set pre. \<not> isl (predict model f config))
      \<and> predict model bad config = Inl e)"
proof (cases "\<exists>f\<in>set files. isl (predict model f config)")
  case True
  then obtain pre bad post where split: "files = pre @ bad # post"
      "isl (predict model bad config)" "\<forall>f\<in>set pre. \<not> isl (predict model f config)"
    using split_list_first_prop [of files "\<lambda>f. isl (predict model f config)"] by blast
  from split(2) obtain e where "predict model bad config = Inl e"
    by (cases "predict model bad config") auto
  with split show ?thesis by blast
next
  case False
  then show ?thesis by blast
qed

lemma make_order_success:
  assumes "make_order predict model config uuid4 now files orders = (Inr new_order, orders', calls)"
  shows "(\<forall>f\<in>set files. \<not> isl (predict model f config))
     \<and> new_order = Order_init (uuid4 (length files)) (now 0) (now 1)
                     (built_products predict model config uuid4 0 files)
     \<and> orders' = orders @ [new_order] \<and> calls = files"
proof -
  from files_all_ok_or_first_failure [of files predict model config]
  show ?thesis
  proof
    assume ok: "\<forall>f\<in>set files. \<not> isl (predict model f config)"
    have "make_products predict model config uuid4 files [] [] =
            (Inr (built_products predict model config uuid4 0 files), files)"
      using ok by (simp add: make_products_all_ok)
    with assms ok show ?thesis
      by (auto simp: make_order_def built_products_length Let_def)
  next
    assume "\<exists>pre bad post e. files = pre @ bad # post
        \<and> (\<forall>f\<in>set pre. \<not> isl (predict model f config)) \<and> predict model bad config = Inl e"
    then obtain pre bad post e where "files = pre @ bad # post"
      "\<forall>f\<in>set pre. \<not> isl (predict model f config)" "predict model bad config = Inl e"
      by blast
    with assms show ?thesis
      by (simp add: make_order_def make_products_first_failure)
  qed
qed

lemma add_product_distinct:
  "distinct (map p_id (products self)) \<Longrightarrow> distinct (map p_id (products (add_product t self product)))"
  by (simp add: add_product_def)

lemma add_products_in_turn_distinct:
  "distinct (map p_id (products self)) \<Longrightarrow>
   distinct (map p_id (products (foldl (\<lambda>self (k, product). add_product (now k) self product) self kps)))"
  by (induction kps arbitrary: self) (simp_all add: add_product_distinct split: prod.splits)

lemma update_order_by_id_cases:
  "update_order_by_id now order_id order_update orders = (None, orders) \<or>
   (\<exists>i<length orders. update_order_by_id now order_id order_update orders =
      (Some (add_products_in_turn now (orders ! i) (new_products order_update)),
       orders[i := add_products_in_turn now (orders ! i) (new_products order_update)]))"
proof (cases "get_order_ref orders order_id")
  case None
  then show ?thesis by (simp add: update_order_by_id_def)
next
  case (Some i)
  with get_order_ref_Some [OF Some] update_order_by_id_at [OF Some] show ?thesis by blast
qed

lemma make_order_cases:
  "(\<exists>e calls. make_order predict model config uuid4 now files orders = (Inl e, orders, calls)) \<or>
   (\<exists>new_order. make_order predict model config uuid4 now files orders =
        (Inr new_order, orders @ [new_order], files)
      \<and> new_order = Order_init (uuid4 (length files)) (now 0) (now 1)
                      (built_products predict model config uuid4 0 files))"
proof (cases "make_order predict model config uuid4 now files orders")
  case (fields outcome orders' calls)
  show ?thesis
  proof (cases outcome)
    case (Inl e)
    with fields show ?thesis
      by (auto simp: make_order_def Let_def split: prod.splits sum.splits)
  next
    case (Inr new_order)
    with fields make_order_success [of predict model config uuid4 now files orders new_order orders' calls]
    show ?thesis by simp
  qed
qed

section \<open>The claims\<close>

subsection \<open>C1: adding a product twice\<close>

text \<open>
  Claim C1. Adding a product whose id already occurs among the order's products returns
  the order as it was: the same products, the same \<open>updated_at\<close>, every field. Hence a
  second \<open>add_product\<close> of the same product changes nothing after the first, whatever the
  clock shows at the second call: the products and \<open>updated_at\<close> are those of the first
  call.
\<close>

theorem add_product_idempotent:
  "(p_id product \<in> set (map p_id (products self)) \<longrightarrow>
      add_product now self product = self)
   \<and> add_product now2 (add_product now1 self product) product = add_product now1 self product
   \<and> products (add_product now2 (add_product now1 self product) product)
       = products (add_product now1 self product)
   \<and> updated_at (add_product now2 (add_product now1 self product) product)
       = updated_at (add_product now1 self product)"
  using add_product_then_present [of product now1 self]
  by (simp add: add_product_present)

text \<open>
  The order holding tea: adding tea again at time 5000 leaves it as it is; adding cake at
  5000 and again at 6000 leaves \<open>updated_at\<close> at 5000.
\<close>

theorem add_product_idempotent_witness:
  "p_id tea \<in> set (map p_id (products tea_order))
   \<and> add_product 5000 tea_order tea = tea_order
   \<and> add_product 6000 (add_product 5000 tea_order cake) cake = add_product 5000 tea_order cake
   \<and> updated_at (add_product 6000 (add_product 5000 tea_order cake) cake) = 5000"
  using add_product_idempotent [of tea tea_order 5000 6000 5000]
    add_product_idempotent [of cake tea_order 5000 6000 5000]
  by (simp add: tea_order_def tea_def cake_def add_product_def)

subsection \<open>C2: the bill\<close>

text \<open>
  Claim C2 as stated has \<open>bill\<close> return exactly the sum of the prices. The prices are doubles and
  \<^verbatim>\<open>sum\<close> adds them as doubles. For the order holding products priced 0.1 and 0.2
  the bill is the double \<^verbatim>\<open>5404319552844596 * 2**-54\<close> (printed 0.30000000000000004),
  while the sum of the two prices is \<^verbatim>\<open>10808639105689191 * 2**-55\<close>, which no double
  equals.
\<close>

theorem bill_exact_sum_counterexample:
  "bill sweets_order = PyFloat (Finite False (5404319552844596 * 2 ^ 1020))
   \<and> num_value (bill sweets_order) \<noteq> exact_value (map price (products sweets_order))"
proof -
  have tenth: "fadd (py_float 0) (Finite False (3602879701896397 * 2 ^ 1019))
      = Finite False (3602879701896397 * 2 ^ 1019)"
  proof -
    have "fadd (py_float 0) (Finite False (3602879701896397 * 2 ^ 1019))
        = round_double False (0 * 2 ^ 1074 + 3602879701896397 * 2 ^ 1019)"
      unfolding py_float_def by (rule fadd_positive)
    also have "0 * 2 ^ 1074 + 3602879701896397 * 2 ^ 1019 = (3602879701896397::nat) * 2 ^ 1019"
      by simp
    also have "round_double False (3602879701896397 * 2 ^ 1019)
        = Finite False (3602879701896397 * 2 ^ 1019)"
      by (intro round_double_exact representable_scaled) simp_all
    finally show ?thesis .
  qed
  have sum: "3602879701896397 * 2 ^ 1019 + 3602879701896397 * 2 ^ 1020
      = (10808639105689191::nat) * 2 ^ 1019"
    by simp
  have len: "bit_length 10808639105689191 = 54"
    by (simp add: bit_length.simps)
  have "fadd (Finite False (3602879701896397 * 2 ^ 1019)) (Finite False (3602879701896397 * 2 ^ 1020))
      = round_double False (3602879701896397 * 2 ^ 1019 + 3602879701896397 * 2 ^ 1020)"
    by (rule fadd_positive)
  also have "\<dots> = round_double False (10808639105689191 * 2 ^ 1019)"
    by (simp only: sum)
  also have "\<dots> = Finite False (5404319552844596 * 2 ^ 1020)"
    by (subst round_double_scaled) (simp_all add: len Let_def)
  finally have three_tenths:
    "fadd (Finite False (3602879701896397 * 2 ^ 1019)) (Finite False (3602879701896397 * 2 ^ 1020))
      = Finite False (5404319552844596 * 2 ^ 1020)" .
  have billed: "bill sweets_order = PyFloat (Finite False (5404319552844596 * 2 ^ 1020))"
    by (simp only: bill_def sweets_order_def mint_def gum_def Order.simps Product.simps list.map
        py_sum.simps foldl.simps tenth three_tenths)
  have exact: "exact_sum (map price (products sweets_order)) = Some (10808639105689191 * 2 ^ 1019)"
    by (simp add: sweets_order_def mint_def gum_def signed_def)
  have "num_units (bill sweets_order) \<noteq> exact_sum (map price (products sweets_order))"
    unfolding billed exact by (simp add: signed_def)
  then have "num_value (bill sweets_order) \<noteq> exact_value (map price (products sweets_order))"
    unfolding num_value_units exact_value_def by (simp only: scaled_value_eq not_False_eq_True)
  with billed show ?thesis by (rule conjI)
qed

text \<open>
  Claim C2, amended. Reading \<open>bill\<close> gives Python's \<^verbatim>\<open>sum\<close> of the prices of the
  products the order holds at that moment: the \<^verbatim>\<open>int\<close> \<open>0\<close> for an order without
  products, otherwise the double reached by adding the prices to \<open>0.0\<close> from left to right
  in double arithmetic. That is exactly the sum of the prices whenever no addition on
  the way has to round (all prices finite, every running total a double). Nothing is
  stored: whatever list of products the order is given, the next read sums that list, so
  a read after \<open>add_product\<close> includes an appended product; and \<^verbatim>\<open>GET /bill\<close> answers
  with the bill of the stored order.
\<close>

theorem bill_is_rounded_sum_of_prices:
  "bill (self\<lparr>products := []\<rparr>) = PyInt 0
   \<and> bill (Order_init fresh_id now1 now2 []) = PyInt 0
   \<and> bill (self\<lparr>products := ps\<rparr>) = py_sum (map price ps)
   \<and> (products self \<noteq> [] \<longrightarrow>
        bill self = PyFloat (foldl fadd (py_float 0) (map price (products self))))
   \<and> (exact_partial_sums 0 (map price (products self)) \<longrightarrow>
        num_units (bill self) = exact_sum (map price (products self))
        \<and> num_value (bill self) = exact_value (map price (products self)))
   \<and> bill (add_product now self product) =
       (if p_id product \<in> set (map p_id (products self)) then bill self
        else PyFloat (foldl fadd (py_float 0) (map price (products self) @ [price product])))
   \<and> (get_order_by_id orders order_id = Some found_order \<longrightarrow>
        get_bill order_id orders = NumberBody (bill found_order))"
proof -
  have nonempty: "xs \<noteq> [] \<Longrightarrow> py_sum xs = PyFloat (foldl fadd (py_float 0) xs)" for xs
    by (cases xs) simp_all
  have exact: "exact_partial_sums 0 (map price (products self)) \<longrightarrow>
        num_units (bill self) = exact_sum (map price (products self))
        \<and> num_value (bill self) = exact_value (map price (products self))"
    by (simp add: bill_def py_sum_exact num_value_units exact_value_def)
  have added: "bill (add_product now self product) =
       (if p_id product \<in> set (map p_id (products self)) then bill self
        else PyFloat (foldl fadd (py_float 0) (map price (products self) @ [price product])))"
    by (simp add: bill_def add_product_def nonempty)
  have read: "products self \<noteq> [] \<longrightarrow>
        bill self = PyFloat (foldl fadd (py_float 0) (map price (products self)))"
    by (simp add: bill_def nonempty)
  from exact added read show ?thesis
    by (simp add: bill_def Order_init_def get_bill_def)
qed

text \<open>
  An order with tea (10.0) and cake (20.0): no rounding on the way, the bill is 30.0.
\<close>

theorem bill_is_rounded_sum_of_prices_witness:
  "products (tea_order\<lparr>products := [tea, cake]\<rparr>) \<noteq> []
   \<and> exact_partial_sums 0 (map price (products (tea_order\<lparr>products := [tea, cake]\<rparr>)))
   \<and> get_order_by_id [tea_order\<lparr>products := [tea, cake]\<rparr>] 7
       = Some (tea_order\<lparr>products := [tea, cake]\<rparr>)
   \<and> bill (tea_order\<lparr>products := [tea, cake]\<rparr>) = PyFloat (py_float 30)
   \<and> num_value (bill (tea_order\<lparr>products := [tea, cake]\<rparr>)) = Some 30
   \<and> exact_value (map price (products (tea_order\<lparr>products := [tea, cake]\<rparr>))) = Some 30
   \<and> get_bill 7 [tea_order\<lparr>products := [tea, cake]\<rparr>] = NumberBody (PyFloat (py_float 30))"
proof -
  let ?two = "tea_order\<lparr>products := [tea, cake]\<rparr>"
  have prices: "map price (products ?two) = map py_float [10, 20]"
    by (simp add: tea_def cake_def)
  have nonempty: "products ?two \<noteq> []"
    by simp
  have "exact_partial_sums (int (0 * 2 ^ 1074)) (map py_float [10, 20])"
    by (rule exact_partial_sums_py_float) simp
  then have summable: "exact_partial_sums 0 (map price (products ?two))"
    unfolding prices by simp
  have found: "get_order_by_id [?two] 7 = Some ?two"
    by (simp add: tea_order_def)
  note sums = bill_is_rounded_sum_of_prices [of ?two 0 0 0 "[]" 0 tea "[?two]" 7 ?two]
  have "fadd (py_float 0) (py_float 10) = py_float (0 + 10)"
    by (rule fadd_py_float) simp
  moreover have "fadd (py_float 10) (py_float 20) = py_float (10 + 20)"
    by (rule fadd_py_float) simp
  ultimately have billed: "bill ?two = PyFloat (py_float 30)"
    by (simp add: bill_def tea_def cake_def)
  then have val: "num_value (bill ?two) = Some 30"
    by (simp add: float_value_py_float)
  from sums summable have "num_value (bill ?two) = exact_value (map price (products ?two))"
    by blast
  with val have exact: "exact_value (map price (products ?two)) = Some 30"
    by simp
  from sums found have "get_bill 7 [?two] = NumberBody (bill ?two)"
    by blast
  with billed have answered: "get_bill 7 [?two] = NumberBody (PyFloat (py_float 30))"
    by simp
  from nonempty summable found billed val exact answered show ?thesis
    by (intro conjI)
qed

subsection \<open>C3: updating an unknown order\<close>

text \<open>
  Claim C3. When no order in the store has the given id, \<open>update_order_by_id\<close> returns
  \<^verbatim>\<open>None\<close> and the store it leaves is the store it found, whatever products were
  supplied.
\<close>

theorem update_order_by_id_not_found:
  "get_order_by_id orders order_id = None \<Longrightarrow>
   update_order_by_id now order_id order_update orders = (None, orders)"
  by (simp add: update_order_by_id_def get_order_by_id_ref)

text \<open>
  A store holding order 7 only, asked to update order 8.
\<close>

theorem update_order_by_id_not_found_witness:
  "get_order_by_id [tea_order] 8 = None
   \<and> update_order_by_id sample_now 8 \<lparr>new_products = [cake]\<rparr> [tea_order] = (None, [tea_order])"
  using update_order_by_id_not_found [of "[tea_order]" 8 sample_now "\<lparr>new_products = [cake]\<rparr>"]
  by (simp add: tea_order_def)

subsection \<open>C4: updating a stored order\<close>

text \<open>
  Claim C4. When the lookup finds an order, it is the first one in the store with that
  id, at some position \<open>i\<close>. \<open>update_order_by_id\<close> then returns the result of applying
  \<open>add_product\<close> to that order for each supplied product in turn, each application
  starting from the result of the one before, and the store holds that same value at
  position \<open>i\<close> (nothing else in the store changes). A lookup in the new store finds
  exactly the order that was returned, and the PATCH handler answers with it. With no
  products supplied the returned object is the copy made before the loop, which has the
  value of the stored order.
\<close>

theorem update_order_by_id_found:
  assumes "get_order_by_id orders order_id = Some existing_order"
  shows "\<exists>i<length orders.
           orders ! i = existing_order \<and> (\<forall>j<i. o_id (orders ! j) \<noteq> order_id)
         \<and> update_order_by_id now order_id order_update orders =
             (Some (add_products_in_turn now existing_order (new_products order_update)),
              orders[i := add_products_in_turn now existing_order (new_products order_update)])
         \<and> get_order_by_id (snd (update_order_by_id now order_id order_update orders)) order_id
             = fst (update_order_by_id now order_id order_update orders)
         \<and> update_order now order_id order_update orders =
             (OrderBody (add_products_in_turn now existing_order (new_products order_update)),
              orders[i := add_products_in_turn now existing_order (new_products order_update)])"
proof -
  from assms obtain i where i: "get_order_ref orders order_id = Some i" "orders ! i = existing_order"
    by (auto simp: get_order_by_id_ref)
  note at = get_order_ref_Some [OF i(1)]
  let ?final = "add_products_in_turn now existing_order (new_products order_update)"
  have upd: "update_order_by_id now order_id order_update orders = (Some ?final, orders[i := ?final])"
    using update_order_by_id_at [OF i(1)] i(2) by simp
  have "o_id ?final = order_id"
    using at i(2) by (simp add: add_products_in_turn_def foldl_add_product_o_id)
  with at have "get_order_by_id (orders[i := ?final]) order_id = Some ?final"
    by (intro get_order_by_id_update_first) simp_all
  with upd at i(2) show ?thesis
    by (intro exI [of _ i]) (simp add: update_order_def)
qed

text \<open>
  Order 7 holds tea; the request supplies cake, tea, cake. Cake is appended once, at
  the first clock reading (2000), the other two products are already present.
\<close>

theorem update_order_by_id_found_witness:
  "get_order_by_id [tea_order] 7 = Some tea_order
   \<and> update_order_by_id sample_now 7 \<lparr>new_products = [cake, tea, cake]\<rparr> [tea_order] =
       (Some \<lparr>o_id = 7, products = [tea, cake], created_at = 1000, updated_at = 2000\<rparr>,
        [\<lparr>o_id = 7, products = [tea, cake], created_at = 1000, updated_at = 2000\<rparr>])"
  using update_order_by_id_found [of "[tea_order]" 7 tea_order sample_now
      "\<lparr>new_products = [cake, tea, cake]\<rparr>"]
  by (simp add: tea_order_def tea_def cake_def sample_now_def add_products_in_turn_def
      add_product_def)

subsection \<open>C5: a failing classification\<close>

text \<open>
  Claim C5. When the classification of some uploaded file fails, the files split into
  those before the first failing one (all classified), the failing one, and the rest.
  \<open>make_order\<close> then ends with the exception of that file, the store is the one it found
  (no order is appended, whatever products were built before the failure), and the
  classifier was called once on each file up to and including the failing one and never
  again: no retry, and no call on the files after it.
\<close>

theorem make_order_failure_aborts:
  assumes "\<exists>f\<in>set files. isl (predict model f config)"
  shows "\<exists>pre bad post e.
           files = pre @ bad # post
         \<and> (\<forall>f\<in>set pre. \<not> isl (predict model f config))
         \<and> predict model bad config = Inl e
         \<and> make_order predict model config uuid4 now files orders = (Inl e, orders, pre @ [bad])"
proof -
  from assms files_all_ok_or_first_failure [of files predict model config]
  obtain pre bad post e where split: "files = pre @ bad # post"
      "\<forall>f\<in>set pre. \<not> isl (predict model f config)" "predict model bad config = Inl e"
    by blast
  then have "make_order predict model config uuid4 now files orders = (Inl e, orders, pre @ [bad])"
    by (simp add: make_order_def make_products_first_failure)
  with split show ?thesis by blast
qed

text \<open>
  Three uploads, the second empty: the sample classifier rejects it, the third is never
  classified, and the store still holds the one order it held.
\<close>

theorem make_order_failure_aborts_witness:
  "isl (sample_predict () [] ())
   \<and> make_order sample_predict () () sample_uuid4 sample_now [[1, 2], [], [3]] [tea_order] =
       (Inl ''cannot identify image file'', [tea_order], [[1, 2], []])"
proof -
  have failing: "\<exists>f\<in>set [[1, 2], [], [3::8 word]]. isl (sample_predict () f ())"
    by (simp add: sample_predict_def)
  from make_order_failure_aborts [of "[[1, 2], [], [3]]" sample_predict "()" "()"
      sample_uuid4 sample_now "[tea_order]", OF failing]
  obtain pre bad post e where r: "[[1, 2], [], [3::8 word]] = pre @ bad # post"
    "\<forall>f\<in>set pre. \<not> isl (sample_predict () f ())" "sample_predict () bad () = Inl e"
    "make_order sample_predict () () sample_uuid4 sample_now [[1, 2], [], [3]] [tea_order]
       = (Inl e, [tea_order], pre @ [bad])"
    by blast
  have "fst (make_order sample_predict () () sample_uuid4 sample_now [[1, 2], [], [3]] [tea_order])
          = Inl ''cannot identify image file''"
       "snd (snd (make_order sample_predict () () sample_uuid4 sample_now [[1, 2], [], [3]] [tea_order]))
          = [[1, 2], []]"
    by (simp_all add: make_order_def sample_predict_def)
  with r(4) show ?thesis
    by (simp add: sample_predict_def)
qed

subsection \<open>C6: the answer for an unknown order\<close>

text \<open>
  The claim gives the body as \<^verbatim>\<open>{message: "order not found"}\<close>. The handlers return
  another text under that key: for a store without order 8, \<^verbatim>\<open>GET /order/8\<close> does
  not return the claimed body.
\<close>

theorem order_not_found_text_counterexample:
  "get_order 8 [tea_order] \<noteq> DictBody [(''message'', ''order not found'')]"
  by (simp add: get_order_def tea_order_def order_not_found_text_def)

text \<open>
  Claim C6, amended. When no order in the store has the given id, each of
  \<^verbatim>\<open>GET /order/{order_id}\<close>, \<^verbatim>\<open>PATCH /order/{order_id}\<close> and
  \<^verbatim>\<open>GET /bill/{order_id}\<close> returns (it does not raise) the dict with the single key
  \<^verbatim>\<open>message\<close> whose value is the Korean sentence of the source ("the order
  information cannot be found"), the PATCH leaves the store as it was, and a returned
  value is sent with status 200.
\<close>

theorem order_not_found_response:
  assumes "get_order_by_id orders order_id = None"
  shows "get_order order_id orders = DictBody [(''message'', order_not_found_text)]
       \<and> update_order now order_id order_update orders =
           (DictBody [(''message'', order_not_found_text)], orders)
       \<and> get_bill order_id orders = DictBody [(''message'', order_not_found_text)]
       \<and> http_status (Inr (get_order order_id orders) :: 'e + body) = 200
       \<and> http_status (Inr (fst (update_order now order_id order_update orders)) :: 'e + body) = 200
       \<and> http_status (Inr (get_bill order_id orders) :: 'e + body) = 200"
  using assms
  by (simp add: get_order_def get_bill_def update_order_def update_order_by_id_def
      get_order_by_id_ref http_status_def)

text \<open>
  A store holding order 7 only, asked for order 8 through each of the three handlers.
\<close>

theorem order_not_found_response_witness:
  "get_order_by_id [tea_order] 8 = None
   \<and> get_order 8 [tea_order] = DictBody [(''message'', order_not_found_text)]
   \<and> update_order sample_now 8 \<lparr>new_products = [cake]\<rparr> [tea_order] =
       (DictBody [(''message'', order_not_found_text)], [tea_order])
   \<and> get_bill 8 [tea_order] = DictBody [(''message'', order_not_found_text)]
   \<and> length order_not_found_text = 40"
  using order_not_found_response [where ?'e = string, of "[tea_order]" 8 sample_now
      "\<lparr>new_products = [cake]\<rparr>"]
  by (simp add: tea_order_def order_not_found_text_def)

subsection \<open>C7: appending a new product\<close>

text \<open>
  Claim C7. When the product's id does not occur among the order's products,
  \<open>add_product\<close> returns the order with the product appended at the end: the list is one
  longer, its last element is the product, the earlier products are unchanged and at
  their positions; \<open>updated_at\<close> is the current time; \<open>id\<close> and \<open>created_at\<close> are
  untouched.
\<close>

theorem add_product_appends:
  assumes "p_id product \<notin> set (map p_id (products self))"
  shows "add_product now self product =
           self\<lparr>products := products self @ [product], updated_at := now\<rparr>
       \<and> products (add_product now self product) = products self @ [product]
       \<and> length (products (add_product now self product)) = Suc (length (products self))
       \<and> last (products (add_product now self product)) = product
       \<and> take (length (products self)) (products (add_product now self product)) = products self
       \<and> (\<forall>i<length (products self).
            products (add_product now self product) ! i = products self ! i)
       \<and> updated_at (add_product now self product) = now
       \<and> created_at (add_product now self product) = created_at self
       \<and> o_id (add_product now self product) = o_id self"
  using assms by (simp add: add_product_absent nth_append)

text \<open>
  Adding cake to the order that holds tea, at time 5000.
\<close>

theorem add_product_appends_witness:
  "p_id cake \<notin> set (map p_id (products tea_order))
   \<and> add_product 5000 tea_order cake =
       \<lparr>o_id = 7, products = [tea, cake], created_at = 1000, updated_at = 5000\<rparr>"
  using add_product_appends [of cake tea_order 5000]
  by (simp add: tea_order_def tea_def cake_def)

subsection \<open>C8: lookup\<close>

text \<open>
  Claim C8. After an order is appended to the store, looking up its id finds an order
  with that id. An id that no stored order has (the store grows by appends only, so: an
  id never appended) is not found. The lookup is the first match of a scan from the front
  of the list: it finds \<open>found\<close> exactly when \<open>found\<close> is at some position \<open>i\<close>, has the id,
  and no order before position \<open>i\<close> has it. A successful \<^verbatim>\<open>POST /order\<close> appends
  the order it returns, so that order's id is found afterwards.
\<close>

theorem get_order_by_id_lookup:
  "(\<exists>found. get_order_by_id (orders @ [order]) (o_id order) = Some found \<and> o_id found = o_id order)
   \<and> (order_id \<notin> set (map o_id orders) \<longrightarrow> get_order_by_id orders order_id = None)
   \<and> get_order_by_id orders order_id = List.find (\<lambda>order. o_id order = order_id) orders
   \<and> (get_order_by_id orders order_id = Some found \<longleftrightarrow>
        (\<exists>i<length orders. orders ! i = found \<and> o_id found = order_id
           \<and> (\<forall>j<i. o_id (orders ! j) \<noteq> order_id)))
   \<and> (make_order predict model config uuid4 now files orders = (Inr new_order, orders', calls) \<longrightarrow>
        orders' = orders @ [new_order]
        \<and> (\<exists>found. get_order_by_id orders' (o_id new_order) = Some found
              \<and> o_id found = o_id new_order))"
proof -
  have first: "get_order_by_id orders order_id = Some found \<longleftrightarrow>
        (\<exists>i<length orders. orders ! i = found \<and> o_id found = order_id
           \<and> (\<forall>j<i. o_id (orders ! j) \<noteq> order_id))"
  proof
    assume "get_order_by_id orders order_id = Some found"
    then obtain i where i: "get_order_ref orders order_id = Some i" "orders ! i = found"
      by (auto simp: get_order_by_id_ref)
    with get_order_ref_Some [OF i(1)] show "\<exists>i<length orders. orders ! i = found
        \<and> o_id found = order_id \<and> (\<forall>j<i. o_id (orders ! j) \<noteq> order_id)"
      by blast
  next
    assume "\<exists>i<length orders. orders ! i = found \<and> o_id found = order_id
        \<and> (\<forall>j<i. o_id (orders ! j) \<noteq> order_id)"
    then obtain i where i: "i < length orders" "orders ! i = found" "o_id found = order_id"
      "\<forall>j<i. o_id (orders ! j) \<noteq> order_id"
      by blast
    then have "get_order_ref orders order_id = Some i"
      by (intro get_order_ref_first) simp_all
    with i(2) show "get_order_by_id orders order_id = Some found"
      by (simp add: get_order_by_id_ref)
  qed
  have created: "make_order predict model config uuid4 now files orders = (Inr new_order, orders', calls) \<longrightarrow>
        orders' = orders @ [new_order]
        \<and> (\<exists>found. get_order_by_id orders' (o_id new_order) = Some found
              \<and> o_id found = o_id new_order)"
    using make_order_success [of predict model config uuid4 now files orders new_order orders' calls]
      get_order_by_id_after_append [of orders new_order]
    by blast
  have absent: "order_id \<notin> set (map o_id orders) \<longrightarrow> get_order_by_id orders order_id = None"
    by (simp add: get_order_by_id_None)
  from get_order_by_id_after_append [of orders order] absent
    get_order_by_id_find [of orders order_id] first created
  show ?thesis by blast
qed

text \<open>
  Looking up 8 in a store holding order 7 finds nothing; after a successful
  \<^verbatim>\<open>POST /order\<close> the new order (id 101) is found behind it.
\<close>

theorem get_order_by_id_lookup_witness:
  "8 \<notin> set (map o_id [tea_order])
   \<and> get_order_by_id [tea_order] 8 = None
   \<and> make_order sample_predict () () sample_uuid4 sample_now [[1]] [tea_order] =
       (Inr (Order_init 101 2000 2001 [InferenceImageProduct 100 [''cat'']]),
        [tea_order, Order_init 101 2000 2001 [InferenceImageProduct 100 [''cat'']]],
        [[1]])
   \<and> get_order_by_id [tea_order, Order_init 101 2000 2001 [InferenceImageProduct 100 [''cat'']]] 101
       = Some (Order_init 101 2000 2001 [InferenceImageProduct 100 [''cat'']])"
proof -
  let ?new = "Order_init 101 2000 2001 [InferenceImageProduct 100 [''cat'']]"
  have run: "make_order sample_predict () () sample_uuid4 sample_now [[1]] [tea_order] =
      (Inr ?new, [tea_order, ?new], [[1]])"
    by (simp add: make_order_def sample_predict_def sample_uuid4_def sample_now_def Let_def)
  have absent: "8 \<notin> set (map o_id [tea_order])"
    by (simp add: tea_order_def)
  note lookup = get_order_by_id_lookup [of "[tea_order]" tea_order 8 tea_order sample_predict
      "()" "()" sample_uuid4 sample_now "[[1]]" ?new "[tea_order, ?new]" "[[1]]"]
  from lookup have "8 \<notin> set (map o_id [tea_order]) \<longrightarrow> get_order_by_id [tea_order] 8 = None"
    by (rule conjunct1 [OF conjunct2])
  with absent have none: "get_order_by_id [tea_order] 8 = None"
    by (rule rev_mp)
  have found: "get_order_by_id [tea_order, ?new] 101 = Some ?new"
    by (simp add: tea_order_def Order_init_def)
  from absent none run found show ?thesis
    by (intro conjI)
qed

subsection \<open>C9: product ids within an order\<close>

text \<open>
  The constructor of \<^verbatim>\<open>Order\<close> takes the initial products as they are: an order
  built from a sequence that names the same product twice holds two products with one
  id.
\<close>

theorem no_duplicate_product_ids_counterexample:
  "\<not> distinct (map p_id (products (Order_init 7 1000 1000 [tea, tea])))"
  by (simp add: Order_init_def)

text \<open>
  Claim C9, amended. An empty order has no two products with the same id, and the
  property is kept by every mutation: if it holds of an order, it holds after
  \<open>add_product\<close>; if it holds of every stored order, it holds of every stored order and
  of the returned order after \<open>update_order_by_id\<close>; and, when the ids that
  \<^verbatim>\<open>uuid4()\<close> hands to the products of one request are pairwise different, it holds
  of every stored order and of the returned order after \<open>make_order\<close>. An order
  constructed from an initial sequence has the property only if that sequence has it.
\<close>

theorem no_duplicate_product_ids_kept:
  assumes "distinct (map p_id (products self))"
    and "\<forall>order\<in>set orders. distinct (map p_id (products order))"
    and "distinct (map uuid4 [0..<length files])"
  shows "distinct (map p_id (products (Order_init fresh_id now1 now2 [])))
       \<and> distinct (map p_id (products (add_product t self product)))
       \<and> (\<forall>order\<in>set (snd (update_order_by_id now order_id order_update orders)).
            distinct (map p_id (products order)))
       \<and> (\<forall>updated_order. fst (update_order_by_id now order_id order_update orders) = Some updated_order
            \<longrightarrow> distinct (map p_id (products updated_order)))
       \<and> (\<forall>order\<in>set (fst (snd (make_order predict model config uuid4 now files orders))).
            distinct (map p_id (products order)))
       \<and> (\<forall>new_order. fst (make_order predict model config uuid4 now files orders) = Inr new_order
            \<longrightarrow> distinct (map p_id (products new_order)))"
proof -
  have empty: "distinct (map p_id (products (Order_init fresh_id now1 now2 [])))"
    by (simp add: Order_init_def)
  have added: "distinct (map p_id (products (add_product t self product)))"
    using assms(1) by (rule add_product_distinct)
  have updated: "(\<forall>order\<in>set (snd (update_order_by_id now order_id order_update orders)).
            distinct (map p_id (products order)))
       \<and> (\<forall>updated_order. fst (update_order_by_id now order_id order_update orders) = Some updated_order
            \<longrightarrow> distinct (map p_id (products updated_order)))"
    using update_order_by_id_cases [of now order_id order_update orders]
  proof
    assume "update_order_by_id now order_id order_update orders = (None, orders)"
    with assms(2) show ?thesis by simp
  next
    assume "\<exists>i<length orders. update_order_by_id now order_id order_update orders =
      (Some (add_products_in_turn now (orders ! i) (new_products order_update)),
       orders[i := add_products_in_turn now (orders ! i) (new_products order_update)])"
    then obtain i where i: "i < length orders"
      and upd: "update_order_by_id now order_id order_update orders =
        (Some (add_products_in_turn now (orders ! i) (new_products order_update)),
         orders[i := add_products_in_turn now (orders ! i) (new_products order_update)])"
      by blast
    let ?final = "add_products_in_turn now (orders ! i) (new_products order_update)"
    from i assms(2) have "distinct (map p_id (products (orders ! i)))" by simp
    then have final: "distinct (map p_id (products ?final))"
      unfolding add_products_in_turn_def by (rule add_products_in_turn_distinct)
    have "set (orders[i := ?final]) \<subseteq> insert ?final (set orders)"
      by (rule set_update_subset_insert)
    with final assms(2) have "\<forall>order\<in>set (orders[i := ?final]). distinct (map p_id (products order))"
      by blast
    with final upd show ?thesis by simp
  qed
  have created: "(\<forall>order\<in>set (fst (snd (make_order predict model config uuid4 now files orders))).
            distinct (map p_id (products order)))
       \<and> (\<forall>new_order. fst (make_order predict model config uuid4 now files orders) = Inr new_order
            \<longrightarrow> distinct (map p_id (products new_order)))"
    using make_order_cases [of predict model config uuid4 now files orders]
  proof
    assume "\<exists>e calls. make_order predict model config uuid4 now files orders = (Inl e, orders, calls)"
    with assms(2) show ?thesis by auto
  next
    assume "\<exists>new_order. make_order predict model config uuid4 now files orders =
        (Inr new_order, orders @ [new_order], files)
      \<and> new_order = Order_init (uuid4 (length files)) (now 0) (now 1)
                      (built_products predict model config uuid4 0 files)"
    then obtain new_order where mk: "make_order predict model config uuid4 now files orders =
        (Inr new_order, orders @ [new_order], files)"
      and new: "new_order = Order_init (uuid4 (length files)) (now 0) (now 1)
                      (built_products predict model config uuid4 0 files)"
      by blast
    from new assms(3) have "distinct (map p_id (products new_order))"
      by (simp add: Order_init_def built_products_ids)
    with mk assms(2) show ?thesis by simp
  qed
  from empty added updated created show ?thesis by blast
qed

text \<open>
  The order holding tea: adding tea again, updating with tea, cake, cake, and a
  \<^verbatim>\<open>POST /order\<close> of two files whose products get the ids 100 and 101.
\<close>

theorem no_duplicate_product_ids_kept_witness:
  "distinct (map p_id (products tea_order))
   \<and> distinct (map sample_uuid4 [0..<length [[1::8 word], [2]]])
   \<and> products (add_product 5000 tea_order tea) = [tea]
   \<and> distinct (map p_id (products (add_product 5000 tea_order tea)))
   \<and> update_order_by_id sample_now 7 \<lparr>new_products = [tea, cake, cake]\<rparr> [tea_order] =
       (Some (tea_order\<lparr>products := [tea, cake], updated_at := 2001\<rparr>),
        [tea_order\<lparr>products := [tea, cake], updated_at := 2001\<rparr>])
   \<and> distinct (map p_id [tea, cake])
   \<and> map p_id (products (projr (fst (make_order sample_predict () () sample_uuid4 sample_now
         [[1], [2]] [tea_order])))) = [100, 101]"
proof -
  have self_ok: "distinct (map p_id (products tea_order))"
    by (simp add: tea_order_def)
  have store_ok: "\<forall>order\<in>set [tea_order]. distinct (map p_id (products order))"
    by (simp add: tea_order_def)
  have ids_ok: "distinct (map sample_uuid4 [0..<length [[1::8 word], [2]]])"
    by (simp add: sample_uuid4_def upt_rec)
  note kept = no_duplicate_product_ids_kept [OF self_ok store_ok ids_ok,
      of 0 0 0 5000 tea sample_now 7 "\<lparr>new_products = [tea, cake, cake]\<rparr>" sample_predict "()" "()"]
  have a: "products (add_product 5000 tea_order tea) = [tea]"
    by (simp add: add_product_def tea_order_def)
  have u: "update_order_by_id sample_now 7 \<lparr>new_products = [tea, cake, cake]\<rparr> [tea_order] =
       (Some (tea_order\<lparr>products := [tea, cake], updated_at := 2001\<rparr>),
        [tea_order\<lparr>products := [tea, cake], updated_at := 2001\<rparr>])"
    by (simp add: update_order_by_id_def Order_copy_def add_product_def tea_order_def tea_def
        cake_def sample_now_def Let_def)
  have m: "map p_id (products (projr (fst (make_order sample_predict () () sample_uuid4 sample_now
         [[1], [2]] [tea_order])))) = [100, 101]"
    by (simp add: make_order_def sample_predict_def sample_uuid4_def InferenceImageProduct_def
        Order_init_def Let_def)
  from kept self_ok ids_ok a u m show ?thesis
    by (simp add: tea_def cake_def)
qed

subsection \<open>C10: the products of a created order\<close>

text \<open>
  Claim C10. In the order a successful \<^verbatim>\<open>POST /order\<close> returns, every product has
  the name \<^verbatim>\<open>inference_image_product\<close> and the price 100.0, whatever the files, the
  classifier, the ids and the clock, and there is one product per uploaded file. The bill
  is therefore 100 times the number of files: the sums of 100.0 are whole numbers, which
  doubles hold exactly below \<^verbatim>\<open>2**53\<close>, so this holds for every request of fewer than
  \<^verbatim>\<open>2**53 / 100\<close> (about \<^verbatim>\<open>9 * 10**13\<close>) files. (Without files the bill is the
  \<^verbatim>\<open>int\<close> \<open>0\<close>.)
\<close>

theorem make_order_fixed_name_and_price:
  assumes "make_order predict model config uuid4 now files orders = (Inr new_order, orders', calls)"
  shows "(\<forall>p\<in>set (products new_order).
            name p = ''inference_image_product'' \<and> price p = py_float 100)
       \<and> length (products new_order) = length files
       \<and> (100 * length files < 2 ^ 53 \<longrightarrow>
            bill new_order =
              (if files = [] then PyInt 0 else PyFloat (py_float (100 * length files)))
          \<and> num_value (bill new_order) = Some (100 * real (length files)))"
proof -
  from make_order_success [OF assms]
  have ps: "products new_order = built_products predict model config uuid4 0 files"
    by (simp add: Order_init_def)
  have fixed: "\<forall>p\<in>set (products new_order).
      name p = ''inference_image_product'' \<and> price p = py_float 100"
    unfolding ps by (blast dest: built_products_fixed)
  have len: "length (products new_order) = length files"
    by (simp add: ps built_products_length)
  have billed: "bill new_order =
      (if files = [] then PyInt 0 else PyFloat (py_float (100 * length files)))"
    if bound: "100 * length files < 2 ^ 53"
  proof (cases "products new_order")
    case Nil
    with len show ?thesis by (simp add: bill_def)
  next
    case (Cons p ps')
    from fixed have all: "\<forall>x\<in>set (map price (products new_order)). x = py_float 100"
      by simp
    from bound len have "100 * (0 + length (map price (products new_order))) < 2 ^ 53"
      by simp
    from foldl_fadd_fixed_price [OF all this]
    have "foldl fadd (py_float 0) (map price (products new_order)) = py_float (100 * length files)"
      by (simp add: len)
    with Cons len show ?thesis
      by (auto simp: bill_def)
  qed
  have valued: "num_value (bill new_order) = Some (100 * real (length files))"
    if bound: "100 * length files < 2 ^ 53"
    using billed [OF bound] by (simp add: float_value_py_float)
  from fixed len billed valued show ?thesis by blast
qed

text \<open>
  Two uploads: two products at 100.0 each, a bill of 200.0.
\<close>

theorem make_order_fixed_name_and_price_witness:
  "make_order sample_predict () () sample_uuid4 sample_now [[1], [2, 3]] [] =
     (Inr (Order_init 102 2000 2001
             [InferenceImageProduct 100 [''cat''], InferenceImageProduct 101 [''cat'']]),
      [Order_init 102 2000 2001
             [InferenceImageProduct 100 [''cat''], InferenceImageProduct 101 [''cat'']]],
      [[1], [2, 3]])
   \<and> map name (products (Order_init 102 2000 2001
             [InferenceImageProduct 100 [''cat''], InferenceImageProduct 101 [''cat'']]))
       = [''inference_image_product'', ''inference_image_product'']
   \<and> map price (products (Order_init 102 2000 2001
             [InferenceImageProduct 100 [''cat''], InferenceImageProduct 101 [''cat'']]))
       = [py_float 100, py_float 100]
   \<and> 100 * length [[1], [2, 3::8 word]] < (2::nat) ^ 53
   \<and> bill (Order_init 102 2000 2001
             [InferenceImageProduct 100 [''cat''], InferenceImageProduct 101 [''cat'']])
       = PyFloat (py_float 200)
   \<and> num_value (bill (Order_init 102 2000 2001
             [InferenceImageProduct 100 [''cat''], InferenceImageProduct 101 [''cat'']]))
       = Some 200"
proof -
  let ?new = "Order_init 102 2000 2001
             [InferenceImageProduct 100 [''cat''], InferenceImageProduct 101 [''cat'']]"
  have run: "make_order sample_predict () () sample_uuid4 sample_now [[1], [2, 3]] [] =
      (Inr ?new, [?new], [[1], [2, 3]])"
    by (simp add: make_order_def sample_predict_def sample_uuid4_def sample_now_def Let_def)
  have names: "map name (products ?new) = [''inference_image_product'', ''inference_image_product'']"
    by (simp add: Order_init_def InferenceImageProduct_def)
  have prices: "map price (products ?new) = [py_float 100, py_float 100]"
    by (simp add: Order_init_def InferenceImageProduct_def)
  have bound: "100 * length [[1], [2, 3::8 word]] < (2::nat) ^ 53"
    by simp
  from make_order_fixed_name_and_price [OF run] bound
  have "bill ?new = (if [[1], [2, 3::8 word]] = [] then PyInt 0
          else PyFloat (py_float (100 * length [[1], [2, 3::8 word]])))"
    and val: "num_value (bill ?new) = Some (100 * real (length [[1], [2, 3::8 word]]))"
    by blast+
  then have billed: "bill ?new = PyFloat (py_float 200)"
    by simp
  from val have valued: "num_value (bill ?new) = Some 200"
    by simp
  from run names prices bound billed valued show ?thesis
    by (intro conjI)
qed

end
